theory Spec2Isabelle
  imports Main
begin

section \<open>The gfortran AST log scanner (tools/analyze_gfortran_ast.py)\<close>

text \<open>
  The script reads each file named on the command line, splits it at newlines and walks
  the lines once, keeping two local variables (\<open>curr_procedure\<close>, \<open>curr_symbol\<close>) and
  printing a diagnostic where a guard holds. A string is the \<open>str\<close> that
  \<open>open(fn).read()\<close> returns, as the list of its characters (\<open>char list\<close>, the
  characters with code points below 256);
  \<open>print\<close> appends one entry to the list of lines written to standard output; an uncaught
  Python exception is a value of type \<open>error\<close>.
\<close>

subsection \<open>Strings\<close>

definition newline :: char where
  "newline = CHR 0x0A"

definition apos :: char where
  "apos = CHR 0x27"

text \<open>
  The class \<open>\s\<close> of the \<open>re\<close> module for a \<open>str\<close> pattern: \<open>[ \t\n\r\f\v]\<close> and the other
  characters that count as whitespace in a \<open>str\<close>. Among the code points below 256
  these are the separators 0x1C to 0x1F, the next-line character 0x85 and the
  no-break space 0xA0.
\<close>

definition is_space :: "char \<Rightarrow> bool" where
  "is_space c \<longleftrightarrow>
     c \<in> set [CHR 0x20, CHR 0x09, CHR 0x0A, CHR 0x0D, CHR 0x0C, CHR 0x0B,
                CHR 0x1C, CHR 0x1D, CHR 0x1E, CHR 0x1F, CHR 0x85, CHR 0xA0]"

text \<open>\<open>strip_prefix p s\<close>: the text after the literal \<open>p\<close> when \<open>s\<close> starts with it.\<close>

fun strip_prefix :: "string \<Rightarrow> string \<Rightarrow> string option" where
  "strip_prefix [] s = Some s"
| "strip_prefix (p # ps) [] = None"
| "strip_prefix (p # ps) (c # cs) = (if p = c then strip_prefix ps cs else None)"

text \<open>Python's \<open>sub in s\<close> on strings: \<open>sub\<close> occurs in \<open>s\<close> as a contiguous block.\<close>

fun contains :: "string \<Rightarrow> string \<Rightarrow> bool" where
  "contains sub [] = (strip_prefix sub [] \<noteq> None)"
| "contains sub (c # cs) = (strip_prefix sub (c # cs) \<noteq> None \<or> contains sub cs)"

text \<open>\<open>log.split("\n")\<close>: the pieces between newlines; never the empty list.\<close>

fun split_nl :: "string \<Rightarrow> string list" where
  "split_nl [] = [[]]"
| "split_nl (c # cs) =
     (if c = newline then [] # split_nl cs
      else (let r = split_nl cs in (c # hd r) # tl r))"

text \<open>\<open>fn.rsplit(".", 1)[0]\<close>: the text before the last dot, the whole text when there is none.\<close>

definition rsplit_head :: "string \<Rightarrow> string" where
  "rsplit_head fn =
     (if CHR ''.'' \<in> set fn then rev (tl (dropWhile (\<lambda>c. c \<noteq> CHR ''.'') (rev fn))) else fn)"

subsection \<open>The five regular expressions\<close>

text \<open>
  \<open>re.match\<close> anchors at the start of the line. Each pattern starts with \<open>^\s+\<close> followed
  by a literal whose first character is not whitespace, so \<open>\s+\<close> can only stand for the
  whole run of leading whitespace, which has to be non-empty.
\<close>

definition after_spaces :: "string \<Rightarrow> string option" where
  "after_spaces l =
     (if takeWhile is_space l = [] then None else Some (dropWhile is_space l))"

text \<open>
  \<open>(.*)$\<close> against the remaining text: \<open>.\<close> is any character but a newline, \<open>$\<close> is the end
  of the text or the position before a newline that ends it. The result is the group.
\<close>

definition dot_star_end :: "string \<Rightarrow> string option" where
  "dot_star_end r =
     (let g = takeWhile (\<lambda>c. c \<noteq> newline) r; t = dropWhile (\<lambda>c. c \<noteq> newline) r
      in if t = [] \<or> t = [newline] then Some g else None)"

text \<open>\<open>re_procedure = ^\s+procedure name = (.*)$\<close>; the result is \<open>m.group(1)\<close>.\<close>

definition re_procedure :: "string \<Rightarrow> string option" where
  "re_procedure l =
     (case after_spaces l of None \<Rightarrow> None
      | Some r \<Rightarrow> (case strip_prefix ''procedure name = '' r of None \<Rightarrow> None
          | Some t \<Rightarrow> dot_star_end t))"

text \<open>
  \<open>re_symbol = ^\s+symtree.* symbol: '([^']+)'.*$\<close>. \<open>symbol_at\<close> is the part from
  \<open> symbol: '\<close> on, anchored: the group is the run of characters up to the next
  apostrophe, which has to be non-empty and closed by an apostrophe. \<open>dot_star_then\<close> is
  the greedy \<open>.*\<close> before it: the longest skip is tried first, so the rightmost place
  where \<open>symbol_at\<close> matches gives the group.
\<close>

definition symbol_at :: "string \<Rightarrow> string option" where
  "symbol_at s =
     (case strip_prefix ('' symbol: '' @ [apos]) s of None \<Rightarrow> None
      | Some t \<Rightarrow>
          (let g = takeWhile (\<lambda>c. c \<noteq> apos) t; u = dropWhile (\<lambda>c. c \<noteq> apos) t
           in if g \<noteq> [] \<and> u \<noteq> [] \<and> dot_star_end (tl u) \<noteq> None then Some g else None))"

fun dot_star_then :: "string \<Rightarrow> string option" where
  "dot_star_then [] = symbol_at []"
| "dot_star_then (c # cs) =
     (case (if c = newline then None else dot_star_then cs) of
        Some g \<Rightarrow> Some g
      | None \<Rightarrow> symbol_at (c # cs))"

definition re_symbol :: "string \<Rightarrow> string option" where
  "re_symbol l =
     (case after_spaces l of None \<Rightarrow> None
      | Some r \<Rightarrow> (case strip_prefix ''symtree'' r of None \<Rightarrow> None
          | Some t \<Rightarrow> dot_star_then t))"

text \<open>\<open>re_attr = ^\s+attributes: (.*)$\<close>; only whether it matches is used.\<close>

definition re_attr :: "string \<Rightarrow> bool" where
  "re_attr l =
     (case after_spaces l of None \<Rightarrow> False
      | Some r \<Rightarrow> (case strip_prefix ''attributes: '' r of None \<Rightarrow> False
          | Some t \<Rightarrow> dot_star_end t \<noteq> None))"

text \<open>\<open>re_open = ^\s+OPEN\<close> and \<open>re_close = ^\s+CLOSE\<close>.\<close>

definition re_open :: "string \<Rightarrow> bool" where
  "re_open l =
     (case after_spaces l of None \<Rightarrow> False | Some r \<Rightarrow> strip_prefix ''OPEN'' r \<noteq> None)"

definition re_close :: "string \<Rightarrow> bool" where
  "re_close l =
     (case after_spaces l of None \<Rightarrow> False | Some r \<Rightarrow> strip_prefix ''CLOSE'' r \<noteq> None)"

subsection \<open>Scan state, exceptions and output\<close>

datatype error = IOError | TypeError

record scan_state =
  curr_procedure :: "string option"
  curr_symbol :: "string option"

definition init_state :: scan_state where
  "init_state = \<lparr>curr_procedure = None, curr_symbol = None\<rparr>"

text \<open>The truth value of a variable holding \<open>None\<close> or a string: false for \<open>None\<close> and for \<open>""\<close>.\<close>

definition truthy :: "string option \<Rightarrow> bool" where
  "truthy v = (case v of None \<Rightarrow> False | Some s \<Rightarrow> s \<noteq> [])"

text \<open>\<open>a + b\<close> where \<open>a\<close> is a string and \<open>b\<close> a variable: \<open>TypeError\<close> when \<open>b\<close> is \<open>None\<close>.\<close>

fun str_add :: "error + string \<Rightarrow> string option \<Rightarrow> error + string" where
  "str_add (Inl e) b = Inl e"
| "str_add (Inr a) None = Inl TypeError"
| "str_add (Inr a) (Some b) = Inr (a @ b)"

text \<open>
  \<open>fn+': Symbol "'+curr_symbol+'" in procedure "'+curr_procedure+'" is IMPLICIT-SAVE'\<close>
  (and the same with \<open>IMPLICIT-TYPE\<close>), evaluated from the left.
\<close>

definition symbol_msg :: "string \<Rightarrow> scan_state \<Rightarrow> string \<Rightarrow> error + string" where
  "symbol_msg fn st attr =
     str_add (str_add (str_add (str_add (str_add (Inr fn)
       (Some '': Symbol \"'')) (curr_symbol st))
       (Some ''\" in procedure \"'')) (curr_procedure st))
       (Some (''\" is '' @ attr))"

text \<open>
  \<open>fn+': direct call to OPEN in procedure "'+curr_procedure+"'"\<close> (and the same with
  \<open>CLOSE\<close>).
\<close>

definition call_msg :: "string \<Rightarrow> scan_state \<Rightarrow> string \<Rightarrow> error + string" where
  "call_msg fn st what =
     str_add (str_add (str_add (Inr fn)
       (Some ('': direct call to '' @ what @ '' in procedure \"''))) (curr_procedure st))
       (Some [apos])"

definition open_close_exceptions :: "string list" where
  "open_close_exceptions = [''cp_files'', ''machine_gfortran'', ''machine'']"

text \<open>
  A command prints lines and then either raises or returns: the lines printed, in order,
  and the outcome. \<open>print_if c m\<close> is \<open>if c: msg = m; print(msg)\<close>; \<open>then_io\<close> runs one
  command after another, and an exception in the first skips the second.
\<close>

type_synonym 'a io = "string list \<times> (error + 'a)"

definition print_if :: "bool \<Rightarrow> error + string \<Rightarrow> unit io" where
  "print_if c m =
     (if c then (case m of Inl e \<Rightarrow> ([], Inl e) | Inr s \<Rightarrow> ([s], Inr ()))
      else ([], Inr ()))"

definition then_io :: "unit io \<Rightarrow> 'a io \<Rightarrow> 'a io" where
  "then_io a b =
     (case a of
        (o1, Inl e) \<Rightarrow> (o1, Inl e)
      | (o1, Inr u) \<Rightarrow> (o1 @ fst b, snd b))"

subsection \<open>One iteration of the loop over the lines\<close>

definition process_line :: "string \<Rightarrow> string \<Rightarrow> scan_state \<Rightarrow> scan_state io" where
  "process_line fn line st =
     (case re_procedure line of
        Some p \<Rightarrow> ([], Inr (st\<lparr>curr_procedure := Some p\<rparr>))
      | None \<Rightarrow>
     (case re_symbol line of
        Some s \<Rightarrow> ([], Inr (st\<lparr>curr_symbol := Some s\<rparr>))
      | None \<Rightarrow>
        then_io (print_if (re_attr line \<and> truthy (curr_procedure st)
                    \<and> contains ''IMPLICIT-SAVE'' line \<and> \<not> contains ''PARAMETER'' line)
                  (symbol_msg fn st ''IMPLICIT-SAVE''))
       (then_io (print_if (re_attr line \<and> truthy (curr_procedure st)
                    \<and> contains ''IMPLICIT-TYPE'' line)
                  (symbol_msg fn st ''IMPLICIT-TYPE''))
       (then_io (print_if (re_open line \<and> truthy (curr_procedure st)
                    \<and> rsplit_head fn \<notin> set open_close_exceptions)
                  (call_msg fn st ''OPEN''))
       (then_io (print_if (re_close line \<and> truthy (curr_procedure st)
                    \<and> rsplit_head fn \<notin> set open_close_exceptions)
                  (call_msg fn st ''CLOSE''))
          ([], Inr st))))))"

subsection \<open>The loop, the file and the command line\<close>

fun scan :: "string \<Rightarrow> string list \<Rightarrow> scan_state \<Rightarrow> scan_state io" where
  "scan fn [] st = ([], Inr st)"
| "scan fn (l # ls) st =
     (case process_line fn l st of
        (o1, Inl e) \<Rightarrow> (o1, Inl e)
      | (o1, Inr st') \<Rightarrow> (case scan fn ls st' of (o2, r) \<Rightarrow> (o1 @ o2, r)))"

text \<open>
  The world outside the script: what \<open>open(fn).read()\<close> returns for each path (\<open>None\<close>
  where it raises) and the lines written to standard output so far.
\<close>

record world =
  files :: "string \<rightharpoonup> string"
  stdout :: "string list"

definition process_log_file :: "string \<Rightarrow> world \<Rightarrow> (error + unit) \<times> world" where
  "process_log_file fn w =
     (case files w fn of
        None \<Rightarrow> (Inl IOError, w)
      | Some log \<Rightarrow>
          (case scan fn (split_nl log) init_state of
             (out, Inl e) \<Rightarrow> (Inl e, w\<lparr>stdout := stdout w @ out\<rparr>)
           | (out, Inr st) \<Rightarrow> (Inr (), w\<lparr>stdout := stdout w @ out\<rparr>)))"

fun process_files :: "string list \<Rightarrow> world \<Rightarrow> (error + unit) \<times> world" where
  "process_files [] w = (Inr (), w)"
| "process_files (fn # fns) w =
     (case process_log_file fn w of
        (Inl e, w') \<Rightarrow> (Inl e, w')
      | (Inr u, w') \<Rightarrow> process_files fns w')"

definition usage :: "string list" where
  "usage =
    [''Usage: gfanalyse_gfortran_ast.py <ast-file-1> ... <ast-file-N>'',
     ''       For generating the abstract syntax tree (ast) run gfortran'',
     ''       with \"-fdump-fortran-original\" and redirect output to file.'',
     ''       This can be achieved by putting \"FC_SAVELOG = TRUE\" in the cp2k arch-file.'']"

text \<open>
  How the process ends: \<open>sys.exit(n)\<close> or falling off the end (\<open>Exit 0\<close>), or an uncaught
  exception, after which the interpreter prints a traceback and exits with status 1.
\<close>

datatype ending = Exit nat | Uncaught error

fun exit_code :: "ending \<Rightarrow> nat" where
  "exit_code (Exit n) = n"
| "exit_code (Uncaught e) = 1"

text \<open>\<open>argv\<close> is \<open>sys.argv\<close>: the script's name, then the file arguments.\<close>

definition main :: "string list \<Rightarrow> world \<Rightarrow> ending \<times> world" where
  "main argv w =
     (if length argv < 2 then (Exit 1, w\<lparr>stdout := stdout w @ usage\<rparr>)
      else (case process_files (drop 1 argv) w of
              (Inl e, w') \<Rightarrow> (Uncaught e, w')
            | (Inr u, w') \<Rightarrow> (Exit 0, w')))"

text \<open>A line that none of the five patterns matches.\<close>

definition no_match :: "string \<Rightarrow> bool" where
  "no_match l \<longleftrightarrow>
     re_procedure l = None \<and> re_symbol l = None \<and> \<not> re_attr l \<and> \<not> re_open l \<and> \<not> re_close l"

section \<open>Properties\<close>

subsection \<open>Strings and patterns\<close>

lemma strip_prefix_iff: "strip_prefix p s = Some r \<longleftrightarrow> s = p @ r"
  by (induction p s rule: strip_prefix.induct) auto

lemma strip_prefix_None_iff: "strip_prefix p s = None \<longleftrightarrow> (\<forall>r. s \<noteq> p @ r)"
  by (induction p s rule: strip_prefix.induct) auto

lemma contains_iff: "contains sub s \<longleftrightarrow> (\<exists>a b. s = a @ sub @ b)"
proof (induction s)
  case Nil
  show ?case by (cases sub) auto
next
  case (Cons c cs)
  have "strip_prefix sub (c # cs) \<noteq> None \<longleftrightarrow> (\<exists>b. c # cs = sub @ b)"
    by (simp add: strip_prefix_None_iff)
  moreover have "(\<exists>a b. c # cs = a @ sub @ b) \<longleftrightarrow>
      (\<exists>b. c # cs = sub @ b) \<or> (\<exists>a b. cs = a @ sub @ b)"
  proof
    assume "\<exists>a b. c # cs = a @ sub @ b"
    then obtain a b where ab: "c # cs = a @ sub @ b" by blast
    show "(\<exists>b. c # cs = sub @ b) \<or> (\<exists>a b. cs = a @ sub @ b)"
    proof (cases a)
      case Nil
      with ab show ?thesis by auto
    next
      case (Cons x a')
      with ab have "cs = a' @ sub @ b" by simp
      then show ?thesis by blast
    qed
  next
    assume "(\<exists>b. c # cs = sub @ b) \<or> (\<exists>a b. cs = a @ sub @ b)"
    then show "\<exists>a b. c # cs = a @ sub @ b"
    proof
      assume "\<exists>b. c # cs = sub @ b"
      then obtain b where "c # cs = [] @ sub @ b" by auto
      then show ?thesis by blast
    next
      assume "\<exists>a b. cs = a @ sub @ b"
      then obtain a b where "c # cs = (c # a) @ sub @ b" by auto
      then show ?thesis by blast
    qed
  qed
  ultimately show ?case using Cons.IH by simp
qed

lemma split_nl_nonempty: "split_nl s \<noteq> []"
  by (induction s) (auto simp: Let_def)

lemma split_nl_no_newline: "l \<in> set (split_nl s) \<Longrightarrow> newline \<notin> set l"
proof (induction s arbitrary: l)
  case Nil
  then show ?case by simp
next
  case (Cons c cs)
  show ?case
  proof (cases "c = newline")
    case True
    with Cons show ?thesis by auto
  next
    case False
    obtain h t where ht: "split_nl cs = h # t" using split_nl_nonempty [of cs] by (cases "split_nl cs") auto
    with Cons.prems False have "l = c # h \<or> l \<in> set t" by (simp add: Let_def)
    then show ?thesis using Cons.IH [of h] Cons.IH [of l] ht False by auto
  qed
qed

lemma after_spaces_iff:
  "after_spaces l = Some r \<longleftrightarrow>
     (\<exists>ws. l = ws @ r \<and> ws \<noteq> [] \<and> (\<forall>c\<in>set ws. is_space c) \<and> (r = [] \<or> \<not> is_space (hd r)))"
proof
  assume "after_spaces l = Some r"
  then have a: "takeWhile is_space l \<noteq> []" and b: "r = dropWhile is_space l"
    by (auto simp: after_spaces_def split: if_splits)
  have "l = takeWhile is_space l @ r" using b by simp
  moreover have "\<forall>c\<in>set (takeWhile is_space l). is_space c" by (meson set_takeWhileD)
  moreover have "r = [] \<or> \<not> is_space (hd r)" using b by (metis hd_dropWhile)
  ultimately show "\<exists>ws. l = ws @ r \<and> ws \<noteq> [] \<and> (\<forall>c\<in>set ws. is_space c) \<and> (r = [] \<or> \<not> is_space (hd r))"
    using a by blast
next
  assume "\<exists>ws. l = ws @ r \<and> ws \<noteq> [] \<and> (\<forall>c\<in>set ws. is_space c) \<and> (r = [] \<or> \<not> is_space (hd r))"
  then obtain ws where l: "l = ws @ r" and ne: "ws \<noteq> []" and sp: "\<forall>c\<in>set ws. is_space c"
    and r: "r = [] \<or> \<not> is_space (hd r)" by blast
  have "takeWhile is_space l = ws"
    using l sp r by (cases r) (auto simp: takeWhile_append2 takeWhile_tail)
  moreover have "dropWhile is_space l = r"
    using l sp r by (cases r) (auto simp: dropWhile_append2)
  ultimately show "after_spaces l = Some r" using ne by (simp add: after_spaces_def)
qed

lemma strip_prefix_neq_None_iff: "strip_prefix p s \<noteq> None \<longleftrightarrow> (\<exists>r. s = p @ r)"
  by (simp add: strip_prefix_None_iff)

lemma re_open_excl:
  assumes "re_open l"
  shows "re_procedure l = None" "re_symbol l = None" "\<not> re_attr l" "\<not> re_close l"
proof -
  from assms obtain r t where "after_spaces l = Some r" "r = ''OPEN'' @ t"
    by (auto simp: re_open_def strip_prefix_iff split: option.splits)
  then show "re_procedure l = None" "re_symbol l = None" "\<not> re_attr l" "\<not> re_close l"
    by (simp_all add: re_procedure_def re_symbol_def re_attr_def re_close_def)
qed

lemma re_close_excl:
  assumes "re_close l"
  shows "re_procedure l = None" "re_symbol l = None" "\<not> re_attr l" "\<not> re_open l"
proof -
  from assms obtain r t where "after_spaces l = Some r" "r = ''CLOSE'' @ t"
    by (auto simp: re_close_def strip_prefix_iff split: option.splits)
  then show "re_procedure l = None" "re_symbol l = None" "\<not> re_attr l" "\<not> re_open l"
    by (simp_all add: re_procedure_def re_symbol_def re_attr_def re_open_def)
qed

lemma re_attr_excl:
  assumes "re_attr l"
  shows "re_procedure l = None" "re_symbol l = None" "\<not> re_open l" "\<not> re_close l"
proof -
  from assms obtain r t where "after_spaces l = Some r" "r = ''attributes: '' @ t"
    by (auto simp: re_attr_def strip_prefix_iff split: option.splits)
  then show "re_procedure l = None" "re_symbol l = None" "\<not> re_open l" "\<not> re_close l"
    by (simp_all add: re_procedure_def re_symbol_def re_close_def re_open_def)
qed

subsection \<open>The matchers and the meaning of the patterns\<close>

text \<open>
  What the executable matchers accept, in the words of the regular expressions: a
  non-empty run of whitespace, the literal, and the rest. Lines come from \<open>split_nl\<close> and
  hold no newline (\<open>split_nl_no_newline\<close>), so \<open>.*\<close> stands for any rest of the line.
\<close>

lemma after_spaces_literal:
  assumes "\<not> is_space c"
  shows "after_spaces l = Some (c # r) \<longleftrightarrow>
     (\<exists>ws. l = ws @ c # r \<and> ws \<noteq> [] \<and> (\<forall>x\<in>set ws. is_space x))"
  using assms by (simp add: after_spaces_iff)

lemma after_spaces_literal_only:
  assumes "after_spaces l = Some r'" "l = ws @ c # r" "\<not> is_space c" "\<forall>x\<in>set ws. is_space x"
  shows "r' = c # r"
proof -
  have "dropWhile is_space l = c # r"
    using assms(2,3,4) by (simp add: dropWhile_append2)
  with assms(1) show ?thesis
    by (simp add: after_spaces_def split: if_splits)
qed

lemma re_open_iff:
  "re_open l \<longleftrightarrow> (\<exists>ws r. l = ws @ ''OPEN'' @ r \<and> ws \<noteq> [] \<and> (\<forall>c\<in>set ws. is_space c))"
proof
  assume "re_open l"
  then obtain r t where "after_spaces l = Some r" "r = ''OPEN'' @ t"
    by (auto simp: re_open_def strip_prefix_iff split: option.splits)
  then show "\<exists>ws r. l = ws @ ''OPEN'' @ r \<and> ws \<noteq> [] \<and> (\<forall>c\<in>set ws. is_space c)"
    by (auto simp: after_spaces_iff)
next
  assume "\<exists>ws r. l = ws @ ''OPEN'' @ r \<and> ws \<noteq> [] \<and> (\<forall>c\<in>set ws. is_space c)"
  then obtain ws r where "l = ws @ CHR ''O'' # ''PEN'' @ r" "ws \<noteq> []" "\<forall>c\<in>set ws. is_space c"
    by auto
  moreover have "\<not> is_space CHR ''O''" by (simp add: is_space_def)
  ultimately have "after_spaces l = Some (CHR ''O'' # ''PEN'' @ r)"
    using after_spaces_literal [of "CHR ''O''" l "''PEN'' @ r"] by blast
  then show "re_open l" by (simp add: re_open_def)
qed

lemma re_close_iff:
  "re_close l \<longleftrightarrow> (\<exists>ws r. l = ws @ ''CLOSE'' @ r \<and> ws \<noteq> [] \<and> (\<forall>c\<in>set ws. is_space c))"
proof
  assume "re_close l"
  then obtain r t where "after_spaces l = Some r" "r = ''CLOSE'' @ t"
    by (auto simp: re_close_def strip_prefix_iff split: option.splits)
  then show "\<exists>ws r. l = ws @ ''CLOSE'' @ r \<and> ws \<noteq> [] \<and> (\<forall>c\<in>set ws. is_space c)"
    by (auto simp: after_spaces_iff)
next
  assume "\<exists>ws r. l = ws @ ''CLOSE'' @ r \<and> ws \<noteq> [] \<and> (\<forall>c\<in>set ws. is_space c)"
  then obtain ws r where "l = ws @ CHR ''C'' # ''LOSE'' @ r" "ws \<noteq> []" "\<forall>c\<in>set ws. is_space c"
    by auto
  moreover have "\<not> is_space CHR ''C''" by (simp add: is_space_def)
  ultimately have "after_spaces l = Some (CHR ''C'' # ''LOSE'' @ r)"
    using after_spaces_literal [of "CHR ''C''" l "''LOSE'' @ r"] by blast
  then show "re_close l" by (simp add: re_close_def)
qed

lemma dot_star_end_no_newline:
  assumes "newline \<notin> set r"
  shows "dot_star_end r = Some r"
proof -
  have "\<forall>c\<in>set r. c \<noteq> newline" using assms by auto
  then have "takeWhile (\<lambda>c. c \<noteq> newline) r = r" "dropWhile (\<lambda>c. c \<noteq> newline) r = []"
    by simp_all
  then show ?thesis by (simp add: dot_star_end_def)
qed

lemma re_procedure_iff:
  assumes "newline \<notin> set l"
  shows "re_procedure l = Some g \<longleftrightarrow>
     (\<exists>ws. l = ws @ ''procedure name = '' @ g \<and> ws \<noteq> [] \<and> (\<forall>c\<in>set ws. is_space c))"
proof
  assume "re_procedure l = Some g"
  then obtain r t where r: "after_spaces l = Some r" "r = ''procedure name = '' @ t"
    and t: "dot_star_end t = Some g"
    by (auto simp: re_procedure_def strip_prefix_iff split: option.splits)
  from r obtain ws where ws: "l = ws @ r" "ws \<noteq> []" "\<forall>c\<in>set ws. is_space c"
    by (auto simp: after_spaces_iff)
  with r(2) assms have "newline \<notin> set t" by auto
  with t have "g = t" by (simp add: dot_star_end_no_newline)
  with ws r(2) show "\<exists>ws. l = ws @ ''procedure name = '' @ g \<and> ws \<noteq> [] \<and> (\<forall>c\<in>set ws. is_space c)"
    by blast
next
  assume "\<exists>ws. l = ws @ ''procedure name = '' @ g \<and> ws \<noteq> [] \<and> (\<forall>c\<in>set ws. is_space c)"
  then obtain ws where ws: "l = ws @ CHR ''p'' # ''rocedure name = '' @ g" "ws \<noteq> []"
    "\<forall>c\<in>set ws. is_space c"
    by auto
  moreover have "\<not> is_space CHR ''p''" by (simp add: is_space_def)
  ultimately have "after_spaces l = Some (CHR ''p'' # ''rocedure name = '' @ g)"
    using after_spaces_literal [of "CHR ''p''" l "''rocedure name = '' @ g"] by blast
  moreover have "newline \<notin> set g" using assms ws(1) by auto
  ultimately show "re_procedure l = Some g"
    by (simp add: re_procedure_def dot_star_end_no_newline)
qed

lemma re_attr_iff:
  assumes "newline \<notin> set l"
  shows "re_attr l \<longleftrightarrow>
     (\<exists>ws g. l = ws @ ''attributes: '' @ g \<and> ws \<noteq> [] \<and> (\<forall>c\<in>set ws. is_space c))"
proof
  assume "re_attr l"
  then obtain r t where r: "after_spaces l = Some r" "r = ''attributes: '' @ t"
    by (auto simp: re_attr_def strip_prefix_iff split: option.splits)
  then show "\<exists>ws g. l = ws @ ''attributes: '' @ g \<and> ws \<noteq> [] \<and> (\<forall>c\<in>set ws. is_space c)"
    by (auto simp: after_spaces_iff)
next
  assume "\<exists>ws g. l = ws @ ''attributes: '' @ g \<and> ws \<noteq> [] \<and> (\<forall>c\<in>set ws. is_space c)"
  then obtain ws g where ws: "l = ws @ CHR ''a'' # ''ttributes: '' @ g" "ws \<noteq> []"
    "\<forall>c\<in>set ws. is_space c"
    by auto
  moreover have "\<not> is_space CHR ''a''" by (simp add: is_space_def)
  ultimately have "after_spaces l = Some (CHR ''a'' # ''ttributes: '' @ g)"
    using after_spaces_literal [of "CHR ''a''" l "''ttributes: '' @ g"] by blast
  moreover have "newline \<notin> set g" using assms ws(1) by auto
  ultimately show "re_attr l"
    by (simp add: re_attr_def dot_star_end_no_newline)
qed

lemma symbol_at_sound:
  assumes "symbol_at s = Some g"
  shows "\<exists>b. s = '' symbol: '' @ [apos] @ g @ [apos] @ b \<and> g \<noteq> [] \<and> apos \<notin> set g"
proof -
  from assms obtain t where t: "s = ('' symbol: '' @ [apos]) @ t"
    and g: "g = takeWhile (\<lambda>c. c \<noteq> apos) t" "g \<noteq> []"
    and u: "dropWhile (\<lambda>c. c \<noteq> apos) t \<noteq> []"
    by (auto simp: symbol_at_def Let_def strip_prefix_iff split: option.splits if_splits)
  from u have "hd (dropWhile (\<lambda>c. c \<noteq> apos) t) = apos"
    using hd_dropWhile [of "\<lambda>c. c \<noteq> apos" t] by simp
  with u obtain b where b: "dropWhile (\<lambda>c. c \<noteq> apos) t = apos # b"
    by (cases "dropWhile (\<lambda>c. c \<noteq> apos) t") auto
  have "t = g @ apos # b"
    using takeWhile_dropWhile_id [of "\<lambda>c. c \<noteq> apos" t] g(1) b by simp
  moreover have "apos \<notin> set g"
    using g(1) set_takeWhileD by fastforce
  ultimately show ?thesis using t g(2) by auto
qed

lemma dot_star_then_sound:
  "dot_star_then s = Some g \<Longrightarrow>
   \<exists>a b. s = a @ '' symbol: '' @ [apos] @ g @ [apos] @ b \<and> newline \<notin> set a
     \<and> g \<noteq> [] \<and> apos \<notin> set g"
proof (induction s)
  case Nil
  from symbol_at_sound [of "[]" g] Nil show ?case by simp
next
  case (Cons c cs)
  show ?case
  proof (cases "c \<noteq> newline \<and> dot_star_then cs = Some g")
    case True
    with Cons.IH obtain a b where
      "cs = a @ '' symbol: '' @ [apos] @ g @ [apos] @ b" "newline \<notin> set a" "g \<noteq> []"
      "apos \<notin> set g"
      by blast
    with True have "c # cs = (c # a) @ '' symbol: '' @ [apos] @ g @ [apos] @ b
        \<and> newline \<notin> set (c # a) \<and> g \<noteq> [] \<and> apos \<notin> set g"
      by auto
    then show ?thesis by blast
  next
    case False
    with Cons.prems have "symbol_at (c # cs) = Some g"
      by (auto split: if_splits option.splits)
    from symbol_at_sound [OF this] obtain b where
      "c # cs = [] @ '' symbol: '' @ [apos] @ g @ [apos] @ b \<and> newline \<notin> set ([]::string)
        \<and> g \<noteq> [] \<and> apos \<notin> set g"
      by auto
    then show ?thesis by blast
  qed
qed

lemma re_symbol_sound:
  assumes "re_symbol l = Some g"
  shows "\<exists>ws a b. l = ws @ ''symtree'' @ a @ '' symbol: '' @ [apos] @ g @ [apos] @ b
     \<and> ws \<noteq> [] \<and> (\<forall>c\<in>set ws. is_space c) \<and> newline \<notin> set a \<and> g \<noteq> [] \<and> apos \<notin> set g"
proof -
  from assms obtain r t where r: "after_spaces l = Some r" "r = ''symtree'' @ t"
    and t: "dot_star_then t = Some g"
    by (auto simp: re_symbol_def strip_prefix_iff split: option.splits)
  from r(1) obtain ws where ws: "l = ws @ r" "ws \<noteq> []" "\<forall>c\<in>set ws. is_space c"
    by (auto simp: after_spaces_iff)
  from dot_star_then_sound [OF t] obtain a b where
    "t = a @ '' symbol: '' @ [apos] @ g @ [apos] @ b" "newline \<notin> set a" "g \<noteq> []"
    "apos \<notin> set g"
    by blast
  with ws r(2) show ?thesis by auto
qed

text \<open>
  The leading whitespace may be any character of the class, not only blanks and tabs.
\<close>

lemma patterns_after_other_whitespace:
  "re_open (CHR 0x1C # ''OPEN(unit=10)'')"
  "re_close (CHR 0xA0 # ''CLOSE(10)'')"
  "re_procedure (CHR 0x1F # '' procedure name = foo'') = Some ''foo''"
  "re_attr (CHR 0x1D # ''attributes: IMPLICIT-TYPE'')"
  "re_symbol (CHR 0x1C # ''symtree: x symbol: 'new' '') = Some ''new''"
  "re_open (CHR 0x85 # CHR 0x09 # ''OPEN'')"
  by code_simp+

subsection \<open>One line\<close>

lemma print_if_False [simp]: "print_if False m = ([], Inr ())"
  by (simp add: print_if_def)

lemma print_if_True_Inr [simp]: "print_if True (Inr s) = ([s], Inr ())"
  by (simp add: print_if_def)

lemma print_if_True_Inl [simp]: "print_if True (Inl e) = ([], Inl e)"
  by (simp add: print_if_def)

lemma then_io_Inr [simp]: "then_io (o1, Inr u) b = (o1 @ fst b, snd b)"
  by (simp add: then_io_def)

lemma then_io_Inl [simp]: "then_io (o1, Inl e) b = (o1, Inl e)"
  by (simp add: then_io_def)

lemma call_msg_Some:
  "curr_procedure st = Some p \<Longrightarrow>
   call_msg fn st what = Inr (fn @ '': direct call to '' @ what @ '' in procedure \"'' @ p @ [apos])"
  by (simp add: call_msg_def)

lemma symbol_msg_Some:
  "curr_procedure st = Some p \<Longrightarrow> curr_symbol st = Some s \<Longrightarrow>
   symbol_msg fn st attr =
     Inr (fn @ '': Symbol \"'' @ s @ ''\" in procedure \"'' @ p @ ''\" is '' @ attr)"
  by (simp add: symbol_msg_def)

lemma symbol_msg_None:
  "curr_symbol st = None \<Longrightarrow> symbol_msg fn st attr = Inl TypeError"
  by (simp add: symbol_msg_def)

lemma process_line_procedure:
  "re_procedure l = Some p \<Longrightarrow> process_line fn l st = ([], Inr (st\<lparr>curr_procedure := Some p\<rparr>))"
  by (simp add: process_line_def)

lemma process_line_symbol:
  "re_procedure l = None \<Longrightarrow> re_symbol l = Some s \<Longrightarrow>
   process_line fn l st = ([], Inr (st\<lparr>curr_symbol := Some s\<rparr>))"
  by (simp add: process_line_def)

lemma process_line_falsy:
  "re_procedure l = None \<Longrightarrow> re_symbol l = None \<Longrightarrow> \<not> truthy (curr_procedure st) \<Longrightarrow>
   process_line fn l st = ([], Inr st)"
  by (simp add: process_line_def)

lemma process_line_other:
  "re_procedure l = None \<Longrightarrow> re_symbol l = None \<Longrightarrow> \<not> re_attr l \<Longrightarrow> \<not> re_open l \<Longrightarrow>
   \<not> re_close l \<Longrightarrow> process_line fn l st = ([], Inr st)"
  by (simp add: process_line_def)

lemma process_line_open:
  assumes "re_open l" "curr_procedure st = Some p" "p \<noteq> []"
  shows "process_line fn l st =
     ((if rsplit_head fn \<notin> set open_close_exceptions
       then [fn @ '': direct call to OPEN in procedure \"'' @ p @ [apos]] else []), Inr st)"
  using assms re_open_excl [OF assms(1)] call_msg_Some [OF assms(2)]
  by (simp add: process_line_def truthy_def)

lemma process_line_close:
  assumes "re_close l" "curr_procedure st = Some p" "p \<noteq> []"
  shows "process_line fn l st =
     ((if rsplit_head fn \<notin> set open_close_exceptions
       then [fn @ '': direct call to CLOSE in procedure \"'' @ p @ [apos]] else []), Inr st)"
  using assms re_close_excl [OF assms(1)] call_msg_Some [OF assms(2)]
  by (simp add: process_line_def truthy_def)

lemma process_line_attr:
  assumes "re_attr l" "curr_procedure st = Some p" "p \<noteq> []" "curr_symbol st = Some s"
  shows "process_line fn l st =
     ((if contains ''IMPLICIT-SAVE'' l \<and> \<not> contains ''PARAMETER'' l
       then [fn @ '': Symbol \"'' @ s @ ''\" in procedure \"'' @ p @ ''\" is IMPLICIT-SAVE''] else [])
      @ (if contains ''IMPLICIT-TYPE'' l
       then [fn @ '': Symbol \"'' @ s @ ''\" in procedure \"'' @ p @ ''\" is IMPLICIT-TYPE''] else []),
      Inr st)"
  using assms re_attr_excl [OF assms(1)] symbol_msg_Some [OF assms(2) assms(4)]
  by (simp add: process_line_def truthy_def print_if_def then_io_def)

lemma process_line_attr_None:
  assumes "re_attr l" "curr_procedure st = Some p" "p \<noteq> []" "curr_symbol st = None"
    "(contains ''IMPLICIT-SAVE'' l \<and> \<not> contains ''PARAMETER'' l) \<or> contains ''IMPLICIT-TYPE'' l"
  shows "process_line fn l st = ([], Inl TypeError)"
  using assms re_attr_excl [OF assms(1)] symbol_msg_None [OF assms(4)]
  by (auto simp add: process_line_def truthy_def print_if_def then_io_def)

lemma scan_append:
  "scan fn (xs @ ys) st =
     (case scan fn xs st of
        (o1, Inl e) \<Rightarrow> (o1, Inl e)
      | (o1, Inr st') \<Rightarrow> (case scan fn ys st' of (o2, r) \<Rightarrow> (o1 @ o2, r)))"
proof (induction xs arbitrary: st)
  case Nil
  show ?case by simp
next
  case (Cons x xs)
  show ?case
    by (simp add: Cons.IH split: prod.splits sum.splits)
qed

lemma re_symbol_excl:
  assumes "re_symbol l = Some s"
  shows "re_procedure l = None"
proof -
  from assms obtain r t where "after_spaces l = Some r" "r = ''symtree'' @ t"
    by (auto simp: re_symbol_def strip_prefix_iff split: option.splits)
  then show ?thesis by (simp add: re_procedure_def)
qed

lemma process_line_state:
  assumes "process_line fn l st = (out, Inr st')"
  shows "st' = (case re_procedure l of Some p \<Rightarrow> st\<lparr>curr_procedure := Some p\<rparr>
           | None \<Rightarrow> (case re_symbol l of Some s \<Rightarrow> st\<lparr>curr_symbol := Some s\<rparr> | None \<Rightarrow> st))"
  using assms
  by (auto simp: process_line_def then_io_def print_if_def split: option.splits sum.splits if_splits)

lemma scan_keeps_symbol:
  "\<forall>l\<in>set ls. re_symbol l = None \<Longrightarrow> scan fn ls st = (out, Inr st') \<Longrightarrow>
   curr_symbol st' = curr_symbol st"
proof (induction ls arbitrary: st out)
  case Nil
  then show ?case by simp
next
  case (Cons l ls)
  from Cons.prems(2) obtain o1 st1 o2 where
    s1: "process_line fn l st = (o1, Inr st1)" and s2: "scan fn ls st1 = (o2, Inr st')"
    by (auto split: prod.splits sum.splits)
  from Cons.prems(1) have "re_symbol l = None" by simp
  with process_line_state [OF s1] have "curr_symbol st1 = curr_symbol st"
    by (simp split: option.splits)
  moreover have "curr_symbol st' = curr_symbol st1"
    using Cons.IH [OF _ s2] Cons.prems(1) by simp
  ultimately show ?case by simp
qed

subsection \<open>Claims about the scanner\<close>

text \<open>
  C9. A line matching \<open>re_procedure\<close> prints nothing and updates only \<open>curr_procedure\<close>:
  \<open>curr_symbol\<close> is left as it was. Over any run of lines none of which matches
  \<open>re_symbol\<close> (procedure lines included) the symbol seen last is still the current one.
\<close>

theorem procedure_line_keeps_symbol:
  "(re_procedure line = Some p \<longrightarrow>
      process_line fn line st = ([], Inr (st\<lparr>curr_procedure := Some p\<rparr>))
      \<and> curr_symbol (st\<lparr>curr_procedure := Some p\<rparr>) = curr_symbol st)
   \<and> ((\<forall>l\<in>set ls. re_symbol l = None) \<and> scan fn ls st = (out, Inr st') \<longrightarrow>
      curr_symbol st' = curr_symbol st)"
  using process_line_procedure [of line p fn st] scan_keeps_symbol [of ls fn st out st']
  by simp

theorem procedure_line_keeps_symbol_witness:
  "re_procedure ''  procedure name = baz'' = Some ''baz''
   \<and> process_line ''a.log'' ''  procedure name = baz''
        \<lparr>curr_procedure = Some ''foo'', curr_symbol = Some ''bar''\<rparr>
      = ([], Inr \<lparr>curr_procedure = Some ''baz'', curr_symbol = Some ''bar''\<rparr>)
   \<and> re_symbol ''  procedure name = baz'' = None
   \<and> re_symbol ''  attributes: IMPLICIT-TYPE'' = None
   \<and> scan ''a.log'' [''  procedure name = baz'', ''  attributes: IMPLICIT-TYPE'']
        \<lparr>curr_procedure = Some ''foo'', curr_symbol = Some ''bar''\<rparr>
      = ([''a.log: Symbol \"bar\" in procedure \"baz\" is IMPLICIT-TYPE''],
         Inr \<lparr>curr_procedure = Some ''baz'', curr_symbol = Some ''bar''\<rparr>)
   \<and> curr_symbol \<lparr>curr_procedure = Some ''baz'', curr_symbol = Some ''bar''\<rparr> = Some ''bar''"
proof -
  have a: "re_procedure ''  procedure name = baz'' = Some ''baz''"
    by code_simp
  have b: "\<forall>l\<in>set [''  procedure name = baz'', ''  attributes: IMPLICIT-TYPE'']. re_symbol l = None"
    by code_simp
  have c: "scan ''a.log'' [''  procedure name = baz'', ''  attributes: IMPLICIT-TYPE'']
        \<lparr>curr_procedure = Some ''foo'', curr_symbol = Some ''bar''\<rparr>
      = ([''a.log: Symbol \"bar\" in procedure \"baz\" is IMPLICIT-TYPE''],
         Inr \<lparr>curr_procedure = Some ''baz'', curr_symbol = Some ''bar''\<rparr>)"
    by code_simp
  show ?thesis
    using a b c
      procedure_line_keeps_symbol [of "''  procedure name = baz''" "''baz''" "''a.log''"
        "\<lparr>curr_procedure = Some ''foo'', curr_symbol = Some ''bar''\<rparr>"
        "[''  procedure name = baz'', ''  attributes: IMPLICIT-TYPE'']"
        "[''a.log: Symbol \"bar\" in procedure \"baz\" is IMPLICIT-TYPE'']"
        "\<lparr>curr_procedure = Some ''baz'', curr_symbol = Some ''bar''\<rparr>"]
    by simp
qed

text \<open>
  C1, as amended. On a line matching \<open>re_open\<close>, while \<open>curr_procedure\<close> holds a non-empty
  name, the OPEN diagnostic is printed exactly when the file name without its last
  extension is not one of \<open>cp_files\<close>, \<open>machine_gfortran\<close>, \<open>machine\<close>; nothing else is printed
  and the state is unchanged.
\<close>

theorem open_diagnostic_unless_excepted:
  assumes "re_open line" "curr_procedure st = Some p" "p \<noteq> []"
  shows "process_line fn line st =
     ((if rsplit_head fn \<in> {''cp_files'', ''machine_gfortran'', ''machine''} then []
       else [fn @ '': direct call to OPEN in procedure \"'' @ p @ [CHR 0x27]]), Inr st)"
  using process_line_open [OF assms, of fn]
  by (simp add: open_close_exceptions_def apos_def)

theorem open_diagnostic_unless_excepted_witness:
  "re_open ''  OPEN(unit=10, ...)''
   \<and> rsplit_head ''cp_files.log'' = ''cp_files''
   \<and> process_line ''cp_files.log'' ''  OPEN(unit=10, ...)''
        \<lparr>curr_procedure = Some ''foo'', curr_symbol = None\<rparr>
      = ([], Inr \<lparr>curr_procedure = Some ''foo'', curr_symbol = None\<rparr>)
   \<and> rsplit_head ''foo.log'' = ''foo''
   \<and> process_line ''foo.log'' ''  OPEN(unit=10, ...)''
        \<lparr>curr_procedure = Some ''foo'', curr_symbol = None\<rparr>
      = ([''foo.log: direct call to OPEN in procedure \"foo'' @ [CHR 0x27]],
         Inr \<lparr>curr_procedure = Some ''foo'', curr_symbol = None\<rparr>)"
proof -
  have a: "re_open ''  OPEN(unit=10, ...)''"
    by code_simp
  have b: "rsplit_head ''cp_files.log'' = ''cp_files''" "rsplit_head ''foo.log'' = ''foo''"
    by code_simp+
  have c: "curr_procedure \<lparr>curr_procedure = Some ''foo'', curr_symbol = None\<rparr> = Some ''foo''"
    "''foo'' \<noteq> []"
    by simp_all
  show ?thesis
    using a b open_diagnostic_unless_excepted [OF a c, of "''cp_files.log''"]
      open_diagnostic_unless_excepted [OF a c, of "''foo.log''"]
    by simp
qed

text \<open>
  C1 as stated fails where \<open>curr_procedure\<close> has been set to the empty string: the guard
  \<open>and curr_procedure\<close> tests the truth value of the name, so after the line
  \<open>procedure name = \<close> with nothing behind it an OPEN line in \<open>foo.log\<close> prints nothing.
\<close>

theorem open_empty_procedure_name_counterexample:
  "re_procedure ''  procedure name = '' = Some []
   \<and> re_open ''  OPEN(unit=10, ...)''
   \<and> rsplit_head ''foo.log'' = ''foo''
   \<and> ''foo'' \<notin> set open_close_exceptions
   \<and> scan ''foo.log'' [''  procedure name = '', ''  OPEN(unit=10, ...)''] init_state
      = ([], Inr \<lparr>curr_procedure = Some [], curr_symbol = None\<rparr>)"
  by code_simp

text \<open>
  C4. Whatever a line matching \<open>re_open\<close> prints is the file name, the text
  \<open>: direct call to OPEN in procedure\<close>, a double quote, the current procedure name and a
  single apostrophe (no closing double quote); the same holds for \<open>re_close\<close> with
  \<open>CLOSE\<close>.
\<close>

theorem call_msg_format:
  assumes "process_line fn line st = (out, r)" "m \<in> set out"
  shows "(re_open line \<longrightarrow>
      (\<exists>p. curr_procedure st = Some p
         \<and> m = fn @ '': direct call to OPEN in procedure '' @ [CHR 0x22] @ p @ [CHR 0x27]))
   \<and> (re_close line \<longrightarrow>
      (\<exists>p. curr_procedure st = Some p
         \<and> m = fn @ '': direct call to CLOSE in procedure '' @ [CHR 0x22] @ p @ [CHR 0x27]))"
proof (intro conjI impI)
  assume o: "re_open line"
  have "truthy (curr_procedure st)"
  proof (rule ccontr)
    assume "\<not> truthy (curr_procedure st)"
    with process_line_falsy [OF re_open_excl(1,2) [OF o], of st fn] assms show False by simp
  qed
  then obtain p where p: "curr_procedure st = Some p" "p \<noteq> []"
    by (auto simp: truthy_def split: option.splits)
  with process_line_open [OF o p, of fn] assms
  show "\<exists>p. curr_procedure st = Some p
         \<and> m = fn @ '': direct call to OPEN in procedure '' @ [CHR 0x22] @ p @ [CHR 0x27]"
    by (auto simp: apos_def split: if_splits)
next
  assume c: "re_close line"
  have "truthy (curr_procedure st)"
  proof (rule ccontr)
    assume "\<not> truthy (curr_procedure st)"
    with process_line_falsy [OF re_close_excl(1,2) [OF c], of st fn] assms show False by simp
  qed
  then obtain p where p: "curr_procedure st = Some p" "p \<noteq> []"
    by (auto simp: truthy_def split: option.splits)
  with process_line_close [OF c p, of fn] assms
  show "\<exists>p. curr_procedure st = Some p
         \<and> m = fn @ '': direct call to CLOSE in procedure '' @ [CHR 0x22] @ p @ [CHR 0x27]"
    by (auto simp: apos_def split: if_splits)
qed

theorem call_msg_format_witness:
  "process_line ''foo.log'' ''  OPEN(unit=10, ...)''
        \<lparr>curr_procedure = Some ''foo'', curr_symbol = None\<rparr>
     = ([''foo.log: direct call to OPEN in procedure \"foo'' @ [CHR 0x27]],
         Inr \<lparr>curr_procedure = Some ''foo'', curr_symbol = None\<rparr>)
   \<and> re_open ''  OPEN(unit=10, ...)''
   \<and> process_line ''foo.log'' ''  CLOSE(10)''
        \<lparr>curr_procedure = Some ''foo'', curr_symbol = None\<rparr>
     = ([''foo.log: direct call to CLOSE in procedure \"foo'' @ [CHR 0x27]],
         Inr \<lparr>curr_procedure = Some ''foo'', curr_symbol = None\<rparr>)
   \<and> re_close ''  CLOSE(10)''
   \<and> (\<exists>p. Some ''foo'' = Some p
        \<and> ''foo.log: direct call to OPEN in procedure \"foo'' @ [CHR 0x27]
          = ''foo.log'' @ '': direct call to OPEN in procedure '' @ [CHR 0x22] @ p @ [CHR 0x27])
   \<and> (\<exists>p. Some ''foo'' = Some p
        \<and> ''foo.log: direct call to CLOSE in procedure \"foo'' @ [CHR 0x27]
          = ''foo.log'' @ '': direct call to CLOSE in procedure '' @ [CHR 0x22] @ p @ [CHR 0x27])"
proof -
  have a: "process_line ''foo.log'' ''  OPEN(unit=10, ...)''
        \<lparr>curr_procedure = Some ''foo'', curr_symbol = None\<rparr>
     = ([''foo.log: direct call to OPEN in procedure \"foo'' @ [CHR 0x27]],
         Inr \<lparr>curr_procedure = Some ''foo'', curr_symbol = None\<rparr>)"
    by code_simp
  have b: "process_line ''foo.log'' ''  CLOSE(10)''
        \<lparr>curr_procedure = Some ''foo'', curr_symbol = None\<rparr>
     = ([''foo.log: direct call to CLOSE in procedure \"foo'' @ [CHR 0x27]],
         Inr \<lparr>curr_procedure = Some ''foo'', curr_symbol = None\<rparr>)"
    by code_simp
  have c: "re_open ''  OPEN(unit=10, ...)''" "re_close ''  CLOSE(10)''"
    by code_simp+
  show ?thesis
    using a b c call_msg_format [OF a, of "''foo.log: direct call to OPEN in procedure \"foo'' @ [CHR 0x27]"]
      call_msg_format [OF b, of "''foo.log: direct call to CLOSE in procedure \"foo'' @ [CHR 0x27]"]
    by simp
qed

lemma scan_no_procedure:
  "\<forall>l\<in>set pre. re_procedure l = None \<Longrightarrow> curr_procedure st = None \<Longrightarrow>
   \<exists>st'. curr_procedure st' = None \<and> scan fn pre st = ([], Inr st')"
proof (induction pre arbitrary: st)
  case Nil
  then show ?case by simp
next
  case (Cons l ls)
  from Cons.prems have np: "re_procedure l = None" by simp
  have "\<exists>st1. curr_procedure st1 = None \<and> process_line fn l st = ([], Inr st1)"
  proof (cases "re_symbol l")
    case None
    with process_line_falsy [OF np None, of st fn] Cons.prems(2) show ?thesis
      by (simp add: truthy_def)
  next
    case (Some s)
    with process_line_symbol [OF np Some, of fn st] Cons.prems(2) show ?thesis
      by simp
  qed
  then obtain st1 where st1: "curr_procedure st1 = None" "process_line fn l st = ([], Inr st1)"
    by blast
  from Cons.IH [OF _ st1(1)] Cons.prems(1)
  obtain st' where "curr_procedure st' = None" "scan fn ls st1 = ([], Inr st')"
    by auto
  with st1 show ?case by simp
qed

text \<open>
  C5. The lines before the first line matching \<open>re_procedure\<close> print nothing and raise
  nothing, and leave \<open>curr_procedure\<close> unset: the output of the whole file is the output
  of the remaining lines.
\<close>

theorem no_diagnostic_before_first_procedure:
  assumes "\<forall>l\<in>set pre. re_procedure l = None"
  shows "\<exists>st'. curr_procedure st' = None \<and> scan fn pre init_state = ([], Inr st')
           \<and> (\<forall>rest. scan fn (pre @ rest) init_state = scan fn rest st')"
proof -
  from scan_no_procedure [OF assms, of init_state fn]
  obtain st' where st': "curr_procedure st' = None" "scan fn pre init_state = ([], Inr st')"
    by (auto simp: init_state_def)
  have "scan fn (pre @ rest) init_state = scan fn rest st'" for rest
    by (simp add: scan_append st'(2) split: prod.splits)
  with st' show ?thesis by blast
qed

theorem no_diagnostic_before_first_procedure_witness:
  "re_procedure ''  OPEN(unit=10, ...)'' = None
   \<and> re_procedure ''  symtree: ... symbol: 'bar' ...'' = None
   \<and> re_procedure ''  attributes: IMPLICIT-SAVE IMPLICIT-TYPE'' = None
   \<and> re_procedure ''  CLOSE(10)'' = None
   \<and> (\<exists>st'. curr_procedure st' = None
        \<and> scan ''foo.log'' [''  OPEN(unit=10, ...)'', ''  symtree: ... symbol: 'bar' ...'',
             ''  attributes: IMPLICIT-SAVE IMPLICIT-TYPE'', ''  CLOSE(10)''] init_state
           = ([], Inr st'))"
proof -
  have a: "re_procedure ''  OPEN(unit=10, ...)'' = None"
    "re_procedure ''  symtree: ... symbol: 'bar' ...'' = None"
    "re_procedure ''  attributes: IMPLICIT-SAVE IMPLICIT-TYPE'' = None"
    "re_procedure ''  CLOSE(10)'' = None"
    by code_simp+
  then have b: "\<forall>l\<in>set [''  OPEN(unit=10, ...)'', ''  symtree: ... symbol: 'bar' ...'',
             ''  attributes: IMPLICIT-SAVE IMPLICIT-TYPE'', ''  CLOSE(10)'']. re_procedure l = None"
    by simp
  show ?thesis
    using a no_diagnostic_before_first_procedure [OF b, of "''foo.log''"]
    by blast
qed

text \<open>
  C3, as amended. On a line matching \<open>re_attr\<close>, while \<open>curr_procedure\<close> holds a non-empty
  name and \<open>curr_symbol\<close> is set, the line prints the IMPLICIT-SAVE diagnostic when it
  contains \<open>IMPLICIT-SAVE\<close> and not \<open>PARAMETER\<close>, and then the IMPLICIT-TYPE diagnostic when
  it contains \<open>IMPLICIT-TYPE\<close>, whether or not it contains \<open>PARAMETER\<close>; with both
  substrings and no \<open>PARAMETER\<close> these are two diagnostics, in that order.
\<close>

theorem attr_line_diagnostics:
  assumes "re_attr line" "curr_procedure st = Some p" "p \<noteq> []" "curr_symbol st = Some s"
  shows "process_line fn line st =
     ((if contains ''IMPLICIT-SAVE'' line \<and> \<not> contains ''PARAMETER'' line
       then [fn @ '': Symbol \"'' @ s @ ''\" in procedure \"'' @ p @ ''\" is IMPLICIT-SAVE'']
       else [])
      @ (if contains ''IMPLICIT-TYPE'' line
       then [fn @ '': Symbol \"'' @ s @ ''\" in procedure \"'' @ p @ ''\" is IMPLICIT-TYPE'']
       else []),
      Inr st)"
  using process_line_attr [OF assms, of fn] by simp

theorem attr_line_diagnostics_witness:
  "re_attr ''  attributes: IMPLICIT-SAVE IMPLICIT-TYPE''
   \<and> process_line ''foo.log'' ''  attributes: IMPLICIT-SAVE IMPLICIT-TYPE''
        \<lparr>curr_procedure = Some ''foo'', curr_symbol = Some ''bar''\<rparr>
      = ([''foo.log: Symbol \"bar\" in procedure \"foo\" is IMPLICIT-SAVE'',
          ''foo.log: Symbol \"bar\" in procedure \"foo\" is IMPLICIT-TYPE''],
         Inr \<lparr>curr_procedure = Some ''foo'', curr_symbol = Some ''bar''\<rparr>)
   \<and> re_attr ''  attributes: IMPLICIT-SAVE IMPLICIT-TYPE PARAMETER''
   \<and> process_line ''foo.log'' ''  attributes: IMPLICIT-SAVE IMPLICIT-TYPE PARAMETER''
        \<lparr>curr_procedure = Some ''foo'', curr_symbol = Some ''bar''\<rparr>
      = ([''foo.log: Symbol \"bar\" in procedure \"foo\" is IMPLICIT-TYPE''],
         Inr \<lparr>curr_procedure = Some ''foo'', curr_symbol = Some ''bar''\<rparr>)"
proof -
  have a: "re_attr ''  attributes: IMPLICIT-SAVE IMPLICIT-TYPE''"
    "re_attr ''  attributes: IMPLICIT-SAVE IMPLICIT-TYPE PARAMETER''"
    by code_simp+
  have b: "contains ''IMPLICIT-SAVE'' ''  attributes: IMPLICIT-SAVE IMPLICIT-TYPE''"
    "contains ''IMPLICIT-TYPE'' ''  attributes: IMPLICIT-SAVE IMPLICIT-TYPE''"
    "\<not> contains ''PARAMETER'' ''  attributes: IMPLICIT-SAVE IMPLICIT-TYPE''"
    "contains ''IMPLICIT-TYPE'' ''  attributes: IMPLICIT-SAVE IMPLICIT-TYPE PARAMETER''"
    "contains ''PARAMETER'' ''  attributes: IMPLICIT-SAVE IMPLICIT-TYPE PARAMETER''"
    by code_simp+
  have c: "curr_procedure \<lparr>curr_procedure = Some ''foo'', curr_symbol = Some ''bar''\<rparr> = Some ''foo''"
    "''foo'' \<noteq> []"
    "curr_symbol \<lparr>curr_procedure = Some ''foo'', curr_symbol = Some ''bar''\<rparr> = Some ''bar''"
    by simp_all
  show ?thesis
    using a b attr_line_diagnostics [OF a(1) c, of "''foo.log''"]
      attr_line_diagnostics [OF a(2) c, of "''foo.log''"]
    by simp
qed

text \<open>
  C3 as stated fails where \<open>curr_procedure\<close> has been set to the empty string: the guard
  tests the truth value of the name, so the attributes line with both substrings and no
  \<open>PARAMETER\<close> prints nothing, although a procedure line and a symbol line came before.
\<close>

theorem attr_empty_procedure_name_counterexample:
  "re_attr ''  attributes: IMPLICIT-SAVE IMPLICIT-TYPE''
   \<and> contains ''IMPLICIT-SAVE'' ''  attributes: IMPLICIT-SAVE IMPLICIT-TYPE''
   \<and> contains ''IMPLICIT-TYPE'' ''  attributes: IMPLICIT-SAVE IMPLICIT-TYPE''
   \<and> \<not> contains ''PARAMETER'' ''  attributes: IMPLICIT-SAVE IMPLICIT-TYPE''
   \<and> scan ''foo.log'' [''  procedure name = '', ''  symtree: ... symbol: 'bar' ...'']
        init_state
      = ([], Inr \<lparr>curr_procedure = Some [], curr_symbol = Some ''bar''\<rparr>)
   \<and> scan ''foo.log'' [''  procedure name = '', ''  symtree: ... symbol: 'bar' ...'',
        ''  attributes: IMPLICIT-SAVE IMPLICIT-TYPE''] init_state
      = ([], Inr \<lparr>curr_procedure = Some [], curr_symbol = Some ''bar''\<rparr>)"
  by code_simp

text \<open>
  C2, as amended. The message of the two attribute branches is built by concatenating
  \<open>curr_symbol\<close>, which no guard tests. Some file makes the scan raise \<open>TypeError\<close>; and
  whenever a line matching \<open>re_attr\<close> that contains \<open>IMPLICIT-SAVE\<close> without \<open>PARAMETER\<close>, or
  \<open>IMPLICIT-TYPE\<close>, is reached while \<open>curr_procedure\<close> holds a non-empty name and
  \<open>curr_symbol\<close> is still \<open>None\<close>, the scan stops there with \<open>TypeError\<close>, this line printing
  nothing.
\<close>

theorem symbol_msg_not_total:
  "(\<exists>lines. scan fn lines init_state = ([], Inl TypeError))
   \<and> (scan fn pre init_state = (out, Inr st) \<and> curr_procedure st = Some p \<and> p \<noteq> []
        \<and> curr_symbol st = None \<and> re_attr line
        \<and> ((contains ''IMPLICIT-SAVE'' line \<and> \<not> contains ''PARAMETER'' line)
             \<or> contains ''IMPLICIT-TYPE'' line)
      \<longrightarrow> scan fn (pre @ line # rest) init_state = (out, Inl TypeError))"
proof
  have "re_procedure ''  procedure name = foo'' = Some ''foo''"
    "re_attr ''  attributes: IMPLICIT-TYPE''"
    "contains ''IMPLICIT-TYPE'' ''  attributes: IMPLICIT-TYPE''"
    by code_simp+
  then have "scan fn [''  procedure name = foo'', ''  attributes: IMPLICIT-TYPE''] init_state
      = ([], Inl TypeError)"
    using process_line_procedure [of "''  procedure name = foo''" "''foo''" fn init_state]
      process_line_attr_None [of "''  attributes: IMPLICIT-TYPE''"
        "init_state\<lparr>curr_procedure := Some ''foo''\<rparr>" "''foo''" fn]
    by (simp add: init_state_def)
  then show "\<exists>lines. scan fn lines init_state = ([], Inl TypeError)"
    by blast
next
  show "scan fn pre init_state = (out, Inr st) \<and> curr_procedure st = Some p \<and> p \<noteq> []
        \<and> curr_symbol st = None \<and> re_attr line
        \<and> ((contains ''IMPLICIT-SAVE'' line \<and> \<not> contains ''PARAMETER'' line)
             \<or> contains ''IMPLICIT-TYPE'' line)
      \<longrightarrow> scan fn (pre @ line # rest) init_state = (out, Inl TypeError)"
  proof
    assume h: "scan fn pre init_state = (out, Inr st) \<and> curr_procedure st = Some p \<and> p \<noteq> []
        \<and> curr_symbol st = None \<and> re_attr line
        \<and> ((contains ''IMPLICIT-SAVE'' line \<and> \<not> contains ''PARAMETER'' line)
             \<or> contains ''IMPLICIT-TYPE'' line)"
    then have "process_line fn line st = ([], Inl TypeError)"
      using process_line_attr_None [of line st p fn] by blast
    with h show "scan fn (pre @ line # rest) init_state = (out, Inl TypeError)"
      by (simp add: scan_append)
  qed
qed

theorem symbol_msg_not_total_witness:
  "scan ''foo.log'' [''  procedure name = foo''] init_state
      = ([], Inr \<lparr>curr_procedure = Some ''foo'', curr_symbol = None\<rparr>)
   \<and> re_attr ''  attributes: IMPLICIT-SAVE''
   \<and> contains ''IMPLICIT-SAVE'' ''  attributes: IMPLICIT-SAVE''
   \<and> \<not> contains ''PARAMETER'' ''  attributes: IMPLICIT-SAVE''
   \<and> scan ''foo.log'' [''  procedure name = foo'', ''  attributes: IMPLICIT-SAVE'',
        ''  OPEN(unit=10, ...)''] init_state
      = ([], Inl TypeError)"
proof -
  have a: "scan ''foo.log'' [''  procedure name = foo''] init_state
      = ([], Inr \<lparr>curr_procedure = Some ''foo'', curr_symbol = None\<rparr>)"
    by code_simp
  have b: "re_attr ''  attributes: IMPLICIT-SAVE''"
    "contains ''IMPLICIT-SAVE'' ''  attributes: IMPLICIT-SAVE''"
    "\<not> contains ''PARAMETER'' ''  attributes: IMPLICIT-SAVE''"
    by code_simp+
  show ?thesis
    using a b
      symbol_msg_not_total [where fn = "''foo.log''" and pre = "[''  procedure name = foo'']"
        and out = "[]" and st = "\<lparr>curr_procedure = Some ''foo'', curr_symbol = None\<rparr>"
        and p = "''foo''" and line = "''  attributes: IMPLICIT-SAVE''"
        and rest = "[''  OPEN(unit=10, ...)'']"]
    by simp
qed

text \<open>
  C2 as stated fails where \<open>curr_procedure\<close> has been set to the empty string: the guard
  tests the truth value of the name, so on the attributes line nothing is concatenated,
  nothing is raised and nothing is printed, although the procedure is set and no symbol
  line has been seen.
\<close>

theorem symbol_empty_procedure_name_counterexample:
  "re_procedure ''  procedure name = '' = Some []
   \<and> re_attr ''  attributes: IMPLICIT-TYPE''
   \<and> contains ''IMPLICIT-TYPE'' ''  attributes: IMPLICIT-TYPE''
   \<and> scan ''foo.log'' [''  procedure name = ''] init_state
      = ([], Inr \<lparr>curr_procedure = Some [], curr_symbol = None\<rparr>)
   \<and> scan ''foo.log'' [''  procedure name = '', ''  attributes: IMPLICIT-TYPE''] init_state
      = ([], Inr \<lparr>curr_procedure = Some [], curr_symbol = None\<rparr>)"
  by code_simp

lemma scan_no_match:
  "\<forall>l\<in>set ls. no_match l \<Longrightarrow> scan fn ls st = ([], Inr st)"
proof (induction ls)
  case Nil
  show ?case by simp
next
  case (Cons l ls)
  then have "process_line fn l st = ([], Inr st)"
    using process_line_other [of l fn st] by (simp add: no_match_def)
  with Cons show ?case by simp
qed

lemma scan_Cons_Inr:
  "process_line fn l st = (o1, Inr st1) \<Longrightarrow> scan fn ls st1 = (o2, r) \<Longrightarrow>
   scan fn (l # ls) st = (o1 @ o2, r)"
  by simp

lemma scan_skip_no_match:
  "\<forall>l\<in>set ns. no_match l \<Longrightarrow> scan fn (ns @ ls) st = scan fn ls st"
  by (simp add: scan_append scan_no_match split: prod.splits)

text \<open>
  C7. A file whose lines are \<open>  procedure name = foo\<close>, later a line on which
  \<open>re_symbol\<close> captures \<open>bar\<close>, later \<open>  attributes: IMPLICIT-SAVE, SOME-OTHER\<close>, and
  otherwise only lines that match none of the patterns, prints exactly the one line
  \<open><file>: Symbol "bar" in procedure "foo" is IMPLICIT-SAVE\<close> and ends normally.
\<close>

theorem implicit_save_example:
  assumes "files w fn = Some log"
    and "split_nl log = n0 @ [''  procedure name = foo''] @ n1 @ [sline] @ n2
           @ [''  attributes: IMPLICIT-SAVE, SOME-OTHER''] @ n3"
    and "re_symbol sline = Some ''bar''"
    and "\<forall>l\<in>set (n0 @ n1 @ n2 @ n3). no_match l"
  shows "process_log_file fn w =
     (Inr (), w\<lparr>stdout := stdout w
        @ [fn @ '': Symbol \"bar\" in procedure \"foo\" is IMPLICIT-SAVE'']\<rparr>)"
proof -
  let ?P = "''  procedure name = foo''"
  let ?A = "''  attributes: IMPLICIT-SAVE, SOME-OTHER''"
  let ?st1 = "init_state\<lparr>curr_procedure := Some ''foo''\<rparr>"
  let ?st2 = "?st1\<lparr>curr_symbol := Some ''bar''\<rparr>"
  let ?msg = "fn @ '': Symbol \"bar\" in procedure \"foo\" is IMPLICIT-SAVE''"
  have n: "\<forall>l\<in>set n0. no_match l" "\<forall>l\<in>set n1. no_match l"
    "\<forall>l\<in>set n2. no_match l" "\<forall>l\<in>set n3. no_match l"
    using assms(4) by auto
  have P: "re_procedure ?P = Some ''foo''"
    by code_simp
  have A: "re_attr ?A" "contains ''IMPLICIT-SAVE'' ?A" "\<not> contains ''PARAMETER'' ?A"
    "\<not> contains ''IMPLICIT-TYPE'' ?A"
    by code_simp+
  have s3: "scan fn n3 ?st2 = ([], Inr ?st2)"
    by (rule scan_no_match [OF n(4)])
  have "process_line fn ?A ?st2 = ([?msg], Inr ?st2)"
    using process_line_attr [OF A(1), of ?st2 "''foo''" "''bar''" fn] A(2,3,4) by simp
  then have sA: "scan fn (?A # n3) ?st2 = ([?msg], Inr ?st2)"
    using scan_Cons_Inr [OF _ s3] by fastforce
  have s2: "scan fn (n2 @ ?A # n3) ?st2 = ([?msg], Inr ?st2)"
    using scan_skip_no_match [OF n(3)] sA by simp
  have "process_line fn sline ?st1 = ([], Inr ?st2)"
    using process_line_symbol [OF re_symbol_excl [OF assms(3)] assms(3)] by simp
  then have sS: "scan fn (sline # n2 @ ?A # n3) ?st1 = ([?msg], Inr ?st2)"
    using scan_Cons_Inr [OF _ s2] by fastforce
  have s1: "scan fn (n1 @ sline # n2 @ ?A # n3) ?st1 = ([?msg], Inr ?st2)"
    using scan_skip_no_match [OF n(2)] sS by simp
  have "process_line fn ?P init_state = ([], Inr ?st1)"
    using process_line_procedure [OF P] by simp
  then have sP: "scan fn (?P # n1 @ sline # n2 @ ?A # n3) init_state = ([?msg], Inr ?st2)"
    using scan_Cons_Inr [OF _ s1] by fastforce
  have "scan fn (n0 @ ?P # n1 @ sline # n2 @ ?A # n3) init_state = ([?msg], Inr ?st2)"
    using scan_skip_no_match [OF n(1)] sP by simp
  then have "scan fn (split_nl log) init_state = ([?msg], Inr ?st2)"
    using assms(2) by simp
  then show ?thesis
    using assms(1) by (simp add: process_log_file_def)
qed

theorem implicit_save_example_witness:
  "files \<lparr>files = [''foo.log'' \<mapsto> ''Namespace: A-Z: (UNKNOWN 0)\<newline>  procedure name = foo\<newline>    symtree: 'bar'    || symbol: 'bar'  \<newline>      type spec : (REAL 4)\<newline>  attributes: IMPLICIT-SAVE, SOME-OTHER\<newline>''], stdout = []\<rparr> ''foo.log''
     = Some ''Namespace: A-Z: (UNKNOWN 0)\<newline>  procedure name = foo\<newline>    symtree: 'bar'    || symbol: 'bar'  \<newline>      type spec : (REAL 4)\<newline>  attributes: IMPLICIT-SAVE, SOME-OTHER\<newline>''
   \<and> split_nl ''Namespace: A-Z: (UNKNOWN 0)\<newline>  procedure name = foo\<newline>    symtree: 'bar'    || symbol: 'bar'  \<newline>      type spec : (REAL 4)\<newline>  attributes: IMPLICIT-SAVE, SOME-OTHER\<newline>''
     = [''Namespace: A-Z: (UNKNOWN 0)''] @ [''  procedure name = foo''] @ []
       @ [''    symtree: 'bar'    || symbol: 'bar'  ''] @ [''      type spec : (REAL 4)'']
       @ [''  attributes: IMPLICIT-SAVE, SOME-OTHER''] @ [[]]
   \<and> re_symbol ''    symtree: 'bar'    || symbol: 'bar'  '' = Some ''bar''
   \<and> no_match ''Namespace: A-Z: (UNKNOWN 0)''
   \<and> no_match ''      type spec : (REAL 4)''
   \<and> no_match []
   \<and> process_log_file ''foo.log'' \<lparr>files = [''foo.log'' \<mapsto> ''Namespace: A-Z: (UNKNOWN 0)\<newline>  procedure name = foo\<newline>    symtree: 'bar'    || symbol: 'bar'  \<newline>      type spec : (REAL 4)\<newline>  attributes: IMPLICIT-SAVE, SOME-OTHER\<newline>''], stdout = []\<rparr>
     = (Inr (), \<lparr>files = [''foo.log'' \<mapsto> ''Namespace: A-Z: (UNKNOWN 0)\<newline>  procedure name = foo\<newline>    symtree: 'bar'    || symbol: 'bar'  \<newline>      type spec : (REAL 4)\<newline>  attributes: IMPLICIT-SAVE, SOME-OTHER\<newline>''],
          stdout = [''foo.log: Symbol \"bar\" in procedure \"foo\" is IMPLICIT-SAVE'']\<rparr>)"
proof -
  let ?log = "''Namespace: A-Z: (UNKNOWN 0)\<newline>  procedure name = foo\<newline>    symtree: 'bar'    || symbol: 'bar'  \<newline>      type spec : (REAL 4)\<newline>  attributes: IMPLICIT-SAVE, SOME-OTHER\<newline>''"
  let ?w = "\<lparr>files = [''foo.log'' \<mapsto> ?log], stdout = []\<rparr>"
  have f: "files ?w ''foo.log'' = Some ?log"
    by simp
  have "split_nl ?log
     = [''Namespace: A-Z: (UNKNOWN 0)'', ''  procedure name = foo'',
        ''    symtree: 'bar'    || symbol: 'bar'  '', ''      type spec : (REAL 4)'',
        ''  attributes: IMPLICIT-SAVE, SOME-OTHER'', []]"
    by code_simp
  then have sp: "split_nl ?log
     = [''Namespace: A-Z: (UNKNOWN 0)''] @ [''  procedure name = foo''] @ []
       @ [''    symtree: 'bar'    || symbol: 'bar'  ''] @ [''      type spec : (REAL 4)'']
       @ [''  attributes: IMPLICIT-SAVE, SOME-OTHER''] @ [[]]"
    by simp
  have rs: "re_symbol ''    symtree: 'bar'    || symbol: 'bar'  '' = Some ''bar''"
    by code_simp
  have nm: "no_match ''Namespace: A-Z: (UNKNOWN 0)''" "no_match ''      type spec : (REAL 4)''"
    "no_match []"
    by code_simp+
  then have nm': "\<forall>l\<in>set ([''Namespace: A-Z: (UNKNOWN 0)''] @ []
       @ [''      type spec : (REAL 4)''] @ [[]]). no_match l"
    by simp
  show ?thesis
    using f sp rs nm implicit_save_example [OF f sp rs nm']
    by simp
qed

subsection \<open>Files and the command line\<close>

lemma process_log_file_same:
  assumes "files w1 fn = files w2 fn"
  shows "\<exists>out r. process_log_file fn w1 = (r, w1\<lparr>stdout := stdout w1 @ out\<rparr>)
           \<and> process_log_file fn w2 = (r, w2\<lparr>stdout := stdout w2 @ out\<rparr>)"
proof (cases "files w2 fn")
  case None
  with assms have "process_log_file fn w1 = (Inl IOError, w1\<lparr>stdout := stdout w1 @ []\<rparr>)"
    "process_log_file fn w2 = (Inl IOError, w2\<lparr>stdout := stdout w2 @ []\<rparr>)"
    by (simp_all add: process_log_file_def)
  then show ?thesis by blast
next
  case (Some log)
  obtain out res where sc: "scan fn (split_nl log) init_state = (out, res)"
    by (cases "scan fn (split_nl log) init_state")
  show ?thesis
  proof (cases res)
    case (Inl e)
    with Some sc assms have "process_log_file fn w1 = (Inl e, w1\<lparr>stdout := stdout w1 @ out\<rparr>)"
      "process_log_file fn w2 = (Inl e, w2\<lparr>stdout := stdout w2 @ out\<rparr>)"
      by (simp_all add: process_log_file_def)
    then show ?thesis by blast
  next
    case (Inr st)
    with Some sc assms have "process_log_file fn w1 = (Inr (), w1\<lparr>stdout := stdout w1 @ out\<rparr>)"
      "process_log_file fn w2 = (Inr (), w2\<lparr>stdout := stdout w2 @ out\<rparr>)"
      by (simp_all add: process_log_file_def)
    then show ?thesis by blast
  qed
qed

lemma process_log_file_files:
  "process_log_file fn w = (r, w') \<Longrightarrow> files w' = files w"
  by (auto simp: process_log_file_def split: option.splits prod.splits sum.splits)

lemma process_files_files:
  "process_files fns w = (r, w') \<Longrightarrow> files w' = files w"
proof (induction fns arbitrary: w)
  case Nil
  then show ?case by simp
next
  case (Cons fn fns)
  obtain r1 w1 where p: "process_log_file fn w = (r1, w1)"
    by (cases "process_log_file fn w")
  show ?case
  proof (cases r1)
    case (Inl e)
    with p Cons.prems process_log_file_files [OF p] show ?thesis by simp
  next
    case (Inr u)
    with p Cons.prems have "process_files fns w1 = (r, w')" by simp
    from Cons.IH [OF this] process_log_file_files [OF p] show ?thesis by simp
  qed
qed

lemma process_files_append:
  "process_files (xs @ ys) w =
     (case process_files xs w of
        (Inl e, w') \<Rightarrow> (Inl e, w')
      | (Inr u, w') \<Rightarrow> process_files ys w')"
proof (induction xs arbitrary: w)
  case Nil
  show ?case by simp
next
  case (Cons x xs)
  show ?case
    by (simp add: Cons.IH split: prod.splits sum.splits)
qed

text \<open>
  C8. \<open>process_log_file\<close> starts every file from \<open>init_state\<close>, and nothing but the world
  (the files and the output so far) passes from one file to the next. After any files
  \<open>fas\<close> have been processed without an exception, processing \<open>b\<close> raises or returns as
  it does when \<open>b\<close> comes first, and appends the same lines to the output.
\<close>

theorem fresh_state_per_file:
  assumes "process_files fas w = (Inr (), w1)"
  shows "(\<exists>out r. process_log_file b w = (r, w\<lparr>stdout := stdout w @ out\<rparr>)
            \<and> process_log_file b w1 = (r, w1\<lparr>stdout := stdout w1 @ out\<rparr>))
         \<and> process_files (fas @ b # cs) w =
             (case process_log_file b w1 of
                (Inl e, w2) \<Rightarrow> (Inl e, w2)
              | (Inr u, w2) \<Rightarrow> process_files cs w2)"
proof
  have "files w b = files w1 b"
    using process_files_files [OF assms] by simp
  then show "\<exists>out r. process_log_file b w = (r, w\<lparr>stdout := stdout w @ out\<rparr>)
            \<and> process_log_file b w1 = (r, w1\<lparr>stdout := stdout w1 @ out\<rparr>)"
    by (rule process_log_file_same)
next
  show "process_files (fas @ b # cs) w =
             (case process_log_file b w1 of
                (Inl e, w2) \<Rightarrow> (Inl e, w2)
              | (Inr u, w2) \<Rightarrow> process_files cs w2)"
    by (simp add: process_files_append assms)
qed

text \<open>
  C10. What processing a file returns and what it appends to the output depend on the
  file name and on the text read from that file only: two worlds that agree on this file
  give the same outcome and the same appended lines, whatever else they hold.
\<close>

theorem scan_output_determined:
  assumes "files w1 fn = files w2 fn"
  shows "\<exists>out r. process_log_file fn w1 = (r, w1\<lparr>stdout := stdout w1 @ out\<rparr>)
           \<and> process_log_file fn w2 = (r, w2\<lparr>stdout := stdout w2 @ out\<rparr>)"
  using assms by (rule process_log_file_same)

theorem fresh_state_per_file_witness:
  "fst (process_files [''a.log'']
      \<lparr>files = [''a.log'' \<mapsto> ''  procedure name = foo\<newline>  symtree: 'bar' || symbol: 'bar' \<newline>  OPEN(unit=10)'',
                ''b.log'' \<mapsto> ''  attributes: IMPLICIT-TYPE\<newline>  CLOSE(10)''], stdout = []\<rparr>) = Inr ()
   \<and> stdout (snd (process_files [''a.log'']
      \<lparr>files = [''a.log'' \<mapsto> ''  procedure name = foo\<newline>  symtree: 'bar' || symbol: 'bar' \<newline>  OPEN(unit=10)'',
                ''b.log'' \<mapsto> ''  attributes: IMPLICIT-TYPE\<newline>  CLOSE(10)''], stdout = []\<rparr>))
      = [''a.log: direct call to OPEN in procedure \"foo'' @ [CHR 0x27]]
   \<and> stdout (snd (process_log_file ''b.log''
      \<lparr>files = [''a.log'' \<mapsto> ''  procedure name = foo\<newline>  symtree: 'bar' || symbol: 'bar' \<newline>  OPEN(unit=10)'',
                ''b.log'' \<mapsto> ''  attributes: IMPLICIT-TYPE\<newline>  CLOSE(10)''], stdout = []\<rparr>)) = []
   \<and> (\<exists>out r.
        process_log_file ''b.log''
          \<lparr>files = [''a.log'' \<mapsto> ''  procedure name = foo\<newline>  symtree: 'bar' || symbol: 'bar' \<newline>  OPEN(unit=10)'',
                ''b.log'' \<mapsto> ''  attributes: IMPLICIT-TYPE\<newline>  CLOSE(10)''], stdout = []\<rparr>
          = (r, \<lparr>files = [''a.log'' \<mapsto> ''  procedure name = foo\<newline>  symtree: 'bar' || symbol: 'bar' \<newline>  OPEN(unit=10)'',
                ''b.log'' \<mapsto> ''  attributes: IMPLICIT-TYPE\<newline>  CLOSE(10)''], stdout = [] @ out\<rparr>)
        \<and> process_log_file ''b.log'' (snd (process_files [''a.log'']
            \<lparr>files = [''a.log'' \<mapsto> ''  procedure name = foo\<newline>  symtree: 'bar' || symbol: 'bar' \<newline>  OPEN(unit=10)'',
                ''b.log'' \<mapsto> ''  attributes: IMPLICIT-TYPE\<newline>  CLOSE(10)''], stdout = []\<rparr>))
          = (r, (snd (process_files [''a.log'']
            \<lparr>files = [''a.log'' \<mapsto> ''  procedure name = foo\<newline>  symtree: 'bar' || symbol: 'bar' \<newline>  OPEN(unit=10)'',
                ''b.log'' \<mapsto> ''  attributes: IMPLICIT-TYPE\<newline>  CLOSE(10)''], stdout = []\<rparr>))
              \<lparr>stdout := [''a.log: direct call to OPEN in procedure \"foo'' @ [CHR 0x27]] @ out\<rparr>))"
proof -
  let ?w = "\<lparr>files = [''a.log'' \<mapsto> ''  procedure name = foo\<newline>  symtree: 'bar' || symbol: 'bar' \<newline>  OPEN(unit=10)'',
                ''b.log'' \<mapsto> ''  attributes: IMPLICIT-TYPE\<newline>  CLOSE(10)''], stdout = []\<rparr>"
  have a: "fst (process_files [''a.log''] ?w) = Inr ()"
    by code_simp
  have b: "stdout (snd (process_files [''a.log''] ?w))
      = [''a.log: direct call to OPEN in procedure \"foo'' @ [CHR 0x27]]"
    by code_simp
  have c: "stdout (snd (process_log_file ''b.log'' ?w)) = []"
    by code_simp
  have h: "process_files [''a.log''] ?w = (Inr (), snd (process_files [''a.log''] ?w))"
    using a by (metis prod.collapse)
  show ?thesis
    using a b c fresh_state_per_file [OF h, of "''b.log''" "[]"]
    by simp
qed

theorem scan_output_determined_witness:
  "files \<lparr>files = [''foo.log'' \<mapsto> ''  procedure name = foo\<newline>  OPEN(unit=10)''], stdout = []\<rparr> ''foo.log''
     = files \<lparr>files = [''foo.log'' \<mapsto> ''  procedure name = foo\<newline>  OPEN(unit=10)'',
                ''bar.log'' \<mapsto> ''  procedure name = bar''], stdout = [''earlier'']\<rparr> ''foo.log''
   \<and> stdout (snd (process_log_file ''foo.log''
        \<lparr>files = [''foo.log'' \<mapsto> ''  procedure name = foo\<newline>  OPEN(unit=10)''], stdout = []\<rparr>))
      = [''foo.log: direct call to OPEN in procedure \"foo'' @ [CHR 0x27]]
   \<and> stdout (snd (process_log_file ''foo.log''
        \<lparr>files = [''foo.log'' \<mapsto> ''  procedure name = foo\<newline>  OPEN(unit=10)'',
                ''bar.log'' \<mapsto> ''  procedure name = bar''], stdout = [''earlier'']\<rparr>))
      = [''earlier'', ''foo.log: direct call to OPEN in procedure \"foo'' @ [CHR 0x27]]
   \<and> (\<exists>out r.
        process_log_file ''foo.log''
          \<lparr>files = [''foo.log'' \<mapsto> ''  procedure name = foo\<newline>  OPEN(unit=10)''], stdout = []\<rparr>
          = (r, \<lparr>files = [''foo.log'' \<mapsto> ''  procedure name = foo\<newline>  OPEN(unit=10)''],
                 stdout = [] @ out\<rparr>)
        \<and> process_log_file ''foo.log''
          \<lparr>files = [''foo.log'' \<mapsto> ''  procedure name = foo\<newline>  OPEN(unit=10)'',
                ''bar.log'' \<mapsto> ''  procedure name = bar''], stdout = [''earlier'']\<rparr>
          = (r, \<lparr>files = [''foo.log'' \<mapsto> ''  procedure name = foo\<newline>  OPEN(unit=10)'',
                ''bar.log'' \<mapsto> ''  procedure name = bar''], stdout = [''earlier''] @ out\<rparr>))"
proof -
  let ?w1 = "\<lparr>files = [''foo.log'' \<mapsto> ''  procedure name = foo\<newline>  OPEN(unit=10)''], stdout = []\<rparr>"
  let ?w2 = "\<lparr>files = [''foo.log'' \<mapsto> ''  procedure name = foo\<newline>  OPEN(unit=10)'',
                ''bar.log'' \<mapsto> ''  procedure name = bar''], stdout = [''earlier'']\<rparr>"
  have a: "files ?w1 ''foo.log'' = files ?w2 ''foo.log''"
    by simp
  have b: "stdout (snd (process_log_file ''foo.log'' ?w1))
      = [''foo.log: direct call to OPEN in procedure \"foo'' @ [CHR 0x27]]"
    by code_simp
  have c: "stdout (snd (process_log_file ''foo.log'' ?w2))
      = [''earlier'', ''foo.log: direct call to OPEN in procedure \"foo'' @ [CHR 0x27]]"
    by code_simp
  show ?thesis
    using a b c scan_output_determined [OF a]
    by simp
qed

lemma main_usage:
  "length argv < 2 \<Longrightarrow> main argv w = (Exit 1, w\<lparr>stdout := stdout w @ usage\<rparr>)"
  by (simp add: main_def)

lemma usage_four_lines: "length usage = 4"
  by (simp add: usage_def)

lemma main_exit_0:
  "2 \<le> length argv \<Longrightarrow> process_files (drop 1 argv) w = (Inr (), w') \<Longrightarrow>
   main argv w = (Exit 0, w')"
  by (simp add: main_def)

lemma main_uncaught:
  "2 \<le> length argv \<Longrightarrow> process_files (drop 1 argv) w = (Inl e, w') \<Longrightarrow>
   main argv w = (Uncaught e, w') \<and> exit_code (Uncaught e) = 1"
  by (simp add: main_def)

text \<open>
  C6. Without file arguments \<open>main\<close> prints the four usage lines and exits with status 1
  (\<open>main_usage\<close>, \<open>usage_four_lines\<close>). With file arguments it exits with status 0 only when
  no file raised (\<open>main_exit_0\<close>): here the one file named is readable, but its
  attributes line is reached with a procedure and no symbol, the message concatenates
  \<open>None\<close>, and the run ends in an uncaught \<open>TypeError\<close>, that is with status 1.
\<close>

theorem main_readable_file_uncaught:
  "files \<lparr>files = [''a.log'' \<mapsto> ''  procedure name = foo\<newline>  attributes: IMPLICIT-TYPE''],
          stdout = []\<rparr> ''a.log''
     = Some ''  procedure name = foo\<newline>  attributes: IMPLICIT-TYPE''
   \<and> fst (main [''analyze_gfortran_ast.py'', ''a.log'']
        \<lparr>files = [''a.log'' \<mapsto> ''  procedure name = foo\<newline>  attributes: IMPLICIT-TYPE''],
          stdout = []\<rparr>) = Uncaught TypeError
   \<and> exit_code (fst (main [''analyze_gfortran_ast.py'', ''a.log'']
        \<lparr>files = [''a.log'' \<mapsto> ''  procedure name = foo\<newline>  attributes: IMPLICIT-TYPE''],
          stdout = []\<rparr>)) = 1
   \<and> stdout (snd (main [''analyze_gfortran_ast.py'', ''a.log'']
        \<lparr>files = [''a.log'' \<mapsto> ''  procedure name = foo\<newline>  attributes: IMPLICIT-TYPE''],
          stdout = []\<rparr>)) = []"
  by code_simp

end
